theory Spec2Isabelle
  imports Main "HOL-Library.Sublist" "HOL-Library.AList"
begin

section \<open>JavaScript strings\<close>

text \<open>
  Strings are \<open>char list\<close>. The engine only slices and compares them, so the model is
  exact on ASCII text. \<open>toLowerCase\<close> maps the letters A to Z and leaves every other
  character alone.
\<close>

definition toLowerCase_char :: "char \<Rightarrow> char" where
  "toLowerCase_char c =
     (case map_of (zip ''ABCDEFGHIJKLMNOPQRSTUVWXYZ'' ''abcdefghijklmnopqrstuvwxyz'') c of
        Some d \<Rightarrow> d
      | None \<Rightarrow> c)"

definition toLowerCase :: "string \<Rightarrow> string" where
  "toLowerCase s = map toLowerCase_char s"

text \<open>
  \<open>s.indexOf(p)\<close>: the least position at which \<open>p\<close> starts in \<open>s\<close>; \<open>None\<close> stands
  for JavaScript's \<open>-1\<close>.
\<close>

fun indexOf :: "string \<Rightarrow> string \<Rightarrow> nat option" where
  "indexOf [] p = (if p = [] then Some 0 else None)"
| "indexOf (c # cs) p =
     (if prefix p (c # cs) then Some 0 else map_option Suc (indexOf cs p))"

text \<open>
  \<open>String.prototype.replace\<close> with a string pattern and a string replacement. The
  replacement text is a template: \<open>$$\<close> is a dollar sign, \<open>$&\<close> the matched text,
  \<open>$`\<close> the text preceding the match and \<open>$'\<close> the text following it. A string pattern has
  no capture groups, so every other use of \<open>$\<close> stands for itself.
\<close>

fun getSubstitution :: "string \<Rightarrow> string \<Rightarrow> string \<Rightarrow> string \<Rightarrow> string" where
  "getSubstitution matched preceding following [] = []"
| "getSubstitution matched preceding following [c] = [c]"
| "getSubstitution matched preceding following (c # d # r) =
     (if c = CHR ''$'' \<and> d = CHR ''$'' then CHR ''$'' # getSubstitution matched preceding following r
      else if c = CHR ''$'' \<and> d = CHR ''&'' then matched @ getSubstitution matched preceding following r
      else if c = CHR ''$'' \<and> d = CHR 0x60 then preceding @ getSubstitution matched preceding following r
      else if c = CHR ''$'' \<and> d = CHR 0x27 then following @ getSubstitution matched preceding following r
      else c # getSubstitution matched preceding following (d # r))"

definition js_replace :: "string \<Rightarrow> string \<Rightarrow> string \<Rightarrow> string" where
  "js_replace s pat rep =
     (case indexOf s pat of
        None \<Rightarrow> s
      | Some i \<Rightarrow>
          (let preceding = take i s; following = drop (i + length pat) s
           in preceding @ getSubstitution pat preceding following rep @ following))"

text \<open>
  \<open>s.split(c)\<close> for a one-character separator.
\<close>

fun js_split :: "char \<Rightarrow> string \<Rightarrow> string list" where
  "js_split c [] = [[]]"
| "js_split c (x # xs) =
     (if x = c then [] # js_split c xs
      else (case js_split c xs of
              [] \<Rightarrow> [[x]]
            | p # ps \<Rightarrow> (x # p) # ps))"

section \<open>The URL utility (url-parse)\<close>

text \<open>
  The parsed URL object. Only \<open>host\<close>, \<open>query\<close> and \<open>href\<close> are read by the engine;
  the other fields are what the library serialises \<open>href\<close> from. A query object is an
  association list in insertion order (the order in which JavaScript enumerates
  non-numeric keys), with values already turned into strings.
\<close>

type_synonym query = "(string \<times> string) list"

record url =
  protocol :: string
  slashes :: bool
  host :: string
  pathname :: string
  query :: query
  hash :: string
  href :: string

text \<open>
  The library is an external dependency. The engine is modelled over any implementation
  of the two entry points it calls: \<open>parseURL(address, true)\<close> and
  \<open>url.set('query', q)\<close>. The latter updates the object in place; the model returns
  the updated object.
\<close>

record urllib =
  parseURL :: "string \<Rightarrow> url"
  set_query :: "url \<Rightarrow> query \<Rightarrow> url"

text \<open>
  Object spread \<open>{...a, ...b}\<close>: the entries of \<open>a\<close>, then those of \<open>b\<close>, are assigned
  to an empty object; assigning to a key that exists overwrites its value in place.
\<close>

definition spread :: "query \<Rightarrow> query \<Rightarrow> query" where
  "spread a b = foldl (\<lambda>acc (k, v). AList.update k v acc) [] (a @ b)"

subsection \<open>A reference implementation\<close>

text \<open>
  A model of url-parse and of its query-string helper, following the library's rules on
  absolute URLs \<open>scheme://host/path?query#hash\<close>: the scheme and the host are
  lower-cased, the hash is cut at the first \<open>#\<close>, the query at the first \<open>?\<close>, the path
  at the first \<open>/\<close>. Not modelled: credentials, ports handled apart from the host,
  percent-encoding and decoding of query keys and values, and the resolution of relative
  addresses against the page's location. It is used for the concrete scenarios only;
  the general theorems hold for every library.
\<close>

definition is_alpha :: "char \<Rightarrow> bool" where
  "is_alpha c = (toLowerCase_char c \<in> set ''abcdefghijklmnopqrstuvwxyz'')"

definition is_scheme_char :: "char \<Rightarrow> bool" where
  "is_scheme_char c = (is_alpha c \<or> c \<in> set ''0123456789.+-'')"

definition extractProtocol :: "string \<Rightarrow> string \<times> bool \<times> string" where
  "extractProtocol address =
     (let name = takeWhile is_scheme_char address;
          r = dropWhile is_scheme_char address;
          has_protocol = (case name of [] \<Rightarrow> False | c # _ \<Rightarrow> is_alpha c \<and> take 1 r = '':'');
          proto = (if has_protocol then toLowerCase name @ '':'' else []);
          r1 = (if has_protocol then drop 1 r else address)
      in if take 2 r1 = ''//'' then (proto, True, drop 2 r1) else (proto, False, r1))"

fun qs_stringify :: "query \<Rightarrow> string" where
  "qs_stringify [] = []"
| "qs_stringify [(k, v)] = k @ ''='' @ v"
| "qs_stringify ((k, v) # kv # r) = k @ ''='' @ v @ ''&'' @ qs_stringify (kv # r)"

definition qs_parse :: "string \<Rightarrow> query" where
  "qs_parse q =
     foldl (\<lambda>acc part.
              (let k = takeWhile (\<lambda>c. c \<noteq> CHR ''='') part;
                   v = drop 1 (dropWhile (\<lambda>c. c \<noteq> CHR ''='') part)
               in if k = [] then acc
                  else if map_of acc k = None then acc @ [(k, v)]
                  else acc))
           [] (js_split CHR ''&'' (dropWhile (\<lambda>c. c = CHR ''?'') q))"

definition url_toString :: "url \<Rightarrow> string" where
  "url_toString u =
     protocol u @ (if slashes u then ''//'' else []) @ host u @ pathname u
       @ (let q = qs_stringify (query u) in if q = [] then [] else CHR ''?'' # q)
       @ hash u"

definition url_set_query :: "url \<Rightarrow> query \<Rightarrow> url" where
  "url_set_query u q = (let u1 = u\<lparr>query := q\<rparr> in u1\<lparr>href := url_toString u1\<rparr>)"

definition url_parse :: "string \<Rightarrow> url" where
  "url_parse address =
     (case extractProtocol address of (proto, sl, rest) \<Rightarrow>
        (let hash_part = dropWhile (\<lambda>c. c \<noteq> CHR ''#'') rest;
             rest1 = takeWhile (\<lambda>c. c \<noteq> CHR ''#'') rest;
             query_part = dropWhile (\<lambda>c. c \<noteq> CHR ''?'') rest1;
             rest2 = takeWhile (\<lambda>c. c \<noteq> CHR ''?'') rest1;
             path_part = (if sl then dropWhile (\<lambda>c. c \<noteq> CHR ''/'') rest2 else rest2);
             rest3 = (if sl then takeWhile (\<lambda>c. c \<noteq> CHR ''/'') rest2 else []);
             u = \<lparr>protocol = proto, slashes = sl, host = toLowerCase rest3,
                  pathname = path_part, query = qs_parse query_part, hash = hash_part,
                  href = []\<rparr>
         in u\<lparr>href := url_toString u\<rparr>))"

definition url_parse_lib :: urllib where
  "url_parse_lib = \<lparr>parseURL = url_parse, set_query = url_set_query\<rparr>"

section \<open>Configuration\<close>

text \<open>
  A \<open>{from, to}\<close> entry of a tag's \<open>replace\<close> list.
\<close>

record replacement =
  rfrom :: string
  rto :: string

text \<open>
  What the pipeline observes of a call \<open>tag.modify(url)\<close>: the call (or the reading of
  its result) throws, or it yields the address \<open>returnedURL.href || returnedURL\<close> that
  is parsed again. The function is pure, as the data model requires: it does not change
  the object it is given.
\<close>

datatype modify_outcome = Throws string | Yields string

record tag =
  hosts :: "string list"
  tag_query :: query
  replace :: "replacement list"
  modify :: "(url \<Rightarrow> modify_outcome) option"

text \<open>
  The configuration as the caller writes it: \<open>hosts\<close> may be one string or an array,
  and \<open>hosts\<close>, \<open>query\<close>, \<open>replace\<close>, \<open>modify\<close> and \<open>tags\<close> may be absent.
\<close>

datatype hosts_input = HostString string | HostArray "string list"

record tag_input =
  in_hosts :: "hosts_input option"
  in_query :: "query option"
  in_replace :: "replacement list option"
  in_modify :: "(url \<Rightarrow> modify_outcome) option"

record config_input =
  in_tags :: "tag_input list option"
  in_log :: bool

section \<open>The page: elements, the metadata store, the console\<close>

text \<open>
  A document node is an element (identity, node name, children) or a text node. Text nodes
  have no \<open>getElementsByTagName\<close>.
\<close>

datatype node = Element nat string "node list" | TextNode nat

fun ident :: "node \<Rightarrow> nat" where
  "ident (Element i n cs) = i"
| "ident (TextNode i) = i"

fun subtree :: "node \<Rightarrow> node list" where
  "subtree (Element i n cs) = Element i n cs # concat (map subtree cs)"
| "subtree (TextNode i) = [TextNode i]"

fun is_anchor :: "node \<Rightarrow> bool" where
  "is_anchor (Element i n cs) = (toLowerCase n = ''a'')"
| "is_anchor (TextNode i) = False"

text \<open>
  \<open>node.getElementsByTagName('a')\<close>: the anchors below the node, in document order,
  without the node itself.
\<close>

definition getElementsByTagName_a :: "node \<Rightarrow> node list" where
  "getElementsByTagName_a n = filter is_anchor (tl (subtree n))"

text \<open>
  The provenance record that the engine keeps for a link (fields \<open>was\<close> and \<open>is\<close>).
\<close>

record linkData =
  was :: string
  is_now :: string

text \<open>
  The state outside the engine: the document body, the \<open>href\<close> attribute of every
  element (by identity), the Docile store \<open>get(element)\<close> / \<open>set(element, record)\<close>
  (by identity), and the lines written to the console.
\<close>

record page =
  body :: node
  href_attr :: "nat \<Rightarrow> string option"
  docile :: "nat \<Rightarrow> linkData option"
  console :: "(bool \<times> string) list"

text \<open>
  Modelled from the spec: the module \<open>./Log\<close>, a function taking
  \<open>(isError, ...data)\<close> that writes to the console. The data is kept as one string.
\<close>

definition Log :: "bool \<Rightarrow> string \<Rightarrow> page \<Rightarrow> page" where
  "Log isError msg p = p\<lparr>console := console p @ [(isError, msg)]\<rparr>"

section \<open>The engine\<close>

text \<open>
  The private state (\<open>attached\<close>, \<open>config\<close>, \<open>hosts\<close>) and whether \<open>this.log\<close> is
  \<open>Log\<close> (otherwise it is the empty function).
\<close>

record engine =
  attached :: bool
  config :: "tag list"
  state_hosts :: "string list"
  log_enabled :: bool

definition this_log :: "engine \<Rightarrow> bool \<Rightarrow> string \<Rightarrow> page \<Rightarrow> page" where
  "this_log e isError msg p = (if log_enabled e then Log isError msg p else p)"

definition extend_tag :: "tag_input \<Rightarrow> tag" where
  "extend_tag t =
     \<lparr>hosts = (case in_hosts t of
                 None \<Rightarrow> []
               | Some (HostString h) \<Rightarrow> [h]
               | Some (HostArray hs) \<Rightarrow> hs),
      tag_query = (case in_query t of None \<Rightarrow> [] | Some q \<Rightarrow> q),
      replace = (case in_replace t of None \<Rightarrow> [] | Some r \<Rightarrow> r),
      modify = in_modify t\<rparr>"

text \<open>
  The constructor: every tag is extended with its defaults, the hosts of all tags are
  concatenated into the host list, and the first log line is written.
\<close>

definition constructor :: "config_input \<Rightarrow> page \<Rightarrow> engine \<times> page" where
  "constructor c p =
     (let tags = map extend_tag (case in_tags c of None \<Rightarrow> [] | Some ts \<Rightarrow> ts);
          e = \<lparr>attached = False, config = tags,
               state_hosts = concat (map hosts tags), log_enabled = in_log c\<rparr>
      in (e, this_log e False ''New Instance'' p))"

text \<open>
  The replacement loop over the serialised URL.
\<close>

fun apply_replace :: "replacement list \<Rightarrow> string \<Rightarrow> string" where
  "apply_replace [] s = s"
| "apply_replace (r # rs) s = apply_replace rs (js_replace s (rfrom r) (rto r))"

text \<open>
  \<open>linkData.is && linkData.is === url.href\<close>, where \<open>linkData\<close> is the stored record
  or an empty object.
\<close>

definition already_modified :: "linkData option \<Rightarrow> url \<Rightarrow> bool" where
  "already_modified d u =
     (case d of None \<Rightarrow> False | Some r \<Rightarrow> is_now r \<noteq> [] \<and> is_now r = href u)"

text \<open>
  \<open>#modifyURL(url, node, tag)\<close>. The URL object is shared with the caller, so the
  function returns it as the caller sees it afterwards: with the merged query, unless the
  call returned at the check. Inside, \<open>url\<close> is rebound to the parsed result of \<open>modify\<close>
  and then to the string; neither is visible outside. A failure of \<open>modify\<close> is written
  with \<open>Log\<close> itself.
\<close>

definition modifyURL :: "urllib \<Rightarrow> engine \<Rightarrow> url \<Rightarrow> nat \<Rightarrow> tag \<Rightarrow> page \<Rightarrow> url \<times> page" where
  "modifyURL L e u n t p =
     (if already_modified (docile p n) u then (u, p)
      else
        (let originalURL = href u;
             p1 = this_log e False (''Discovered URL: '' @ href u) p;
             u1 = set_query L u (spread (query u) (tag_query t));
             (u2, p2) = (case modify t of
                           None \<Rightarrow> (u1, p1)
                         | Some f \<Rightarrow>
                             (case f u1 of
                                Yields a \<Rightarrow> (parseURL L a, p1)
                              | Throws x \<Rightarrow> (u1, Log True x p1)));
             s = apply_replace (replace t) (href u2)
         in (u1, p2\<lparr>href_attr := (href_attr p2)(n \<mapsto> s),
                    docile := (docile p2)(n \<mapsto> \<lparr>was = originalURL, is_now = s\<rparr>)\<rparr>)))"

text \<open>
  The loop over the tags for one link, and the loop body of \<open>traverse\<close> for one node.
\<close>

fun apply_tags :: "urllib \<Rightarrow> engine \<Rightarrow> nat \<Rightarrow> tag list \<Rightarrow> url \<times> page \<Rightarrow> url \<times> page" where
  "apply_tags L e n [] up = up"
| "apply_tags L e n (t # ts) (u, p) =
     (if host u \<in> set (hosts t) then apply_tags L e n ts (modifyURL L e u n t p)
      else apply_tags L e n ts (u, p))"

definition visit :: "urllib \<Rightarrow> engine \<Rightarrow> page \<Rightarrow> node \<Rightarrow> page" where
  "visit L e p nd =
     (case href_attr p (ident nd) of
        None \<Rightarrow> p
      | Some h \<Rightarrow>
          if h = [] then p
          else (let u = parseURL L h
                in if host u \<notin> set (state_hosts e) then p
                   else snd (apply_tags L e (ident nd) (config e) (u, p))))"

text \<open>
  \<open>traverse(nodeSet)\<close>; \<open>None\<close> is the call without an argument.
\<close>

definition traverse :: "urllib \<Rightarrow> engine \<Rightarrow> node option \<Rightarrow> page \<Rightarrow> page" where
  "traverse L e nodeSet p =
     (case (case nodeSet of None \<Rightarrow> body p | Some nd \<Rightarrow> nd) of
        TextNode i \<Rightarrow> p
      | Element i nm cs \<Rightarrow>
          (let p1 = this_log e False ''Traversing DOM...'' p;
               nodes = (if toLowerCase nm = ''a'' then [Element i nm cs]
                        else getElementsByTagName_a (Element i nm cs))
           in foldl (visit L e) p1 nodes))"

section \<open>The change-notification callback\<close>

datatype mutation_type = Attributes | ChildList | CharacterData

record mutation =
  mtype :: mutation_type
  attributeName :: "string option"
  target :: node

text \<open>
  The two \<open>continue\<close> statements of the callback: an attribute record is skipped when
  it is not about \<open>href\<close>, or when the element's current \<open>href\<close> is the stored \<open>is\<close>.
\<close>

definition skipped :: "page \<Rightarrow> mutation \<Rightarrow> bool" where
  "skipped p m =
     (if mtype m = Attributes then
        (if attributeName m = Some ''href'' then
           (case docile p (ident (target m)) of
              None \<Rightarrow> False
            | Some r \<Rightarrow> is_now r \<noteq> [] \<and> Some (is_now r) = href_attr p (ident (target m)))
         else True)
      else False)"

fun observer_callback :: "urllib \<Rightarrow> engine \<Rightarrow> mutation list \<Rightarrow> bool \<Rightarrow> page \<Rightarrow> page" where
  "observer_callback L e [] emitted p = p"
| "observer_callback L e (m # ms) emitted p =
     (if skipped p m then observer_callback L e ms emitted p
      else observer_callback L e ms True
             (traverse L e (Some (target m))
                (if emitted then p else this_log e False ''DOM Mutation'' p)))"

section \<open>Scenarios and notions used in the statements\<close>

text \<open>
  A page whose body holds one link, element 1, with the given \<open>href\<close>; nothing stored,
  nothing logged.
\<close>

definition link_page :: "string \<Rightarrow> page" where
  "link_page h =
     \<lparr>body = Element 0 ''BODY'' [Element 1 ''A'' []], href_attr = [1 \<mapsto> h],
      docile = Map.empty, console = []\<rparr>"

definition tag_of :: "string \<Rightarrow> query \<Rightarrow> replacement list \<Rightarrow> tag_input" where
  "tag_of h q r =
     \<lparr>in_hosts = Some (HostString h), in_query = Some q, in_replace = Some r,
      in_modify = None\<rparr>"

text \<open>
  \<open>new Affiliate(config)\<close> followed by \<open>traverse()\<close>, with url-parse as the library.
\<close>

definition construct_and_traverse :: "config_input \<Rightarrow> page \<Rightarrow> page" where
  "construct_and_traverse c p =
     (case constructor c p of (e, p1) \<Rightarrow> traverse url_parse_lib e None p1)"

definition query_merge_config :: config_input where
  "query_merge_config =
     \<lparr>in_tags = Some [tag_of ''shop.example'' [(''a'', ''2''), (''b'', ''3'')] []],
      in_log = False\<rparr>"

definition replace_order_config :: config_input where
  "replace_order_config =
     \<lparr>in_tags = Some [tag_of ''old'' []
                        [\<lparr>rfrom = ''http:'', rto = ''https:''\<rparr>,
                         \<lparr>rfrom = ''https://old'', rto = ''https://new''\<rparr>]],
      in_log = False\<rparr>"

text \<open>
  Two pages have the same links when they agree on everything but the console.
\<close>

definition same_links :: "page \<Rightarrow> page \<Rightarrow> bool" where
  "same_links p q = (body p = body q \<and> href_attr p = href_attr q \<and> docile p = docile q)"

text \<open>
  A custom transform that throws on every URL; a tag as it is without its \<open>modify\<close>;
  and two tag lists that differ only in that some tags whose \<open>modify\<close> always throws
  have lost it.
\<close>

definition always_throws :: "(url \<Rightarrow> modify_outcome) \<Rightarrow> bool" where
  "always_throws f = (\<forall>v. \<exists>x. f v = Throws x)"

definition without_modify :: "tag \<Rightarrow> tag" where
  "without_modify t = t\<lparr>modify := None\<rparr>"

definition contained :: "tag \<Rightarrow> tag \<Rightarrow> bool" where
  "contained t t' =
     (t' = t \<or> (\<exists>f. modify t = Some f \<and> always_throws f \<and> t' = without_modify t))"

text \<open>
  A custom transform that never throws.
\<close>

definition never_throws :: "(url \<Rightarrow> modify_outcome) \<Rightarrow> bool" where
  "never_throws f = (\<forall>v. \<exists>a. f v = Yields a)"

text \<open>
  Two tags for the host \<open>shop.example\<close>: the first adds \<open>ref=A\<close>, the second replaces
  \<open>ref=A\<close> by \<open>ref=B\<close>.
\<close>

definition multi_tag_config :: config_input where
  "multi_tag_config =
     \<lparr>in_tags = Some [tag_of ''shop.example'' [(''ref'', ''A'')] [],
                      tag_of ''shop.example'' [] [\<lparr>rfrom = ''ref=A'', rto = ''ref=B''\<rparr>]],
      in_log = False\<rparr>"

text \<open>
  Two tags that both rewrite a link of \<open>shop.example\<close>: the first adds \<open>ref=A\<close> and
  replaces it by \<open>ref=B\<close>, the second adds \<open>t=1\<close>.
\<close>

definition two_rewrites_config :: config_input where
  "two_rewrites_config =
     \<lparr>in_tags = Some [tag_of ''shop.example'' [(''ref'', ''A'')]
                        [\<lparr>rfrom = ''ref=A'', rto = ''ref=B''\<rparr>],
                      tag_of ''shop.example'' [(''t'', ''1'')] []],
      in_log = False\<rparr>"

text \<open>
  A configuration without \<open>log\<close> whose only tag has a \<open>modify\<close> that always throws.
\<close>

definition throwing_tag :: tag_input where
  "throwing_tag =
     \<lparr>in_hosts = Some (HostString ''shop.example''), in_query = Some [(''ref'', ''A'')],
      in_replace = Some [\<lparr>rfrom = ''ref=A'', rto = ''ref=B''\<rparr>],
      in_modify = Some (\<lambda>u. Throws ''boom'')\<rparr>"

definition silent_throwing_config :: config_input where
  "silent_throwing_config = \<lparr>in_tags = Some [throwing_tag], in_log = False\<rparr>"

text \<open>
  An engine over the given tags, with logging off.
\<close>

definition quiet_engine :: "tag list \<Rightarrow> engine" where
  "quiet_engine ts =
     \<lparr>attached = False, config = ts, state_hosts = concat (map hosts ts),
      log_enabled = False\<rparr>"

text \<open>
  A tag that writes the scheme in capitals and doubles the path.
\<close>

definition capitals_tag :: tag where
  "capitals_tag =
     \<lparr>hosts = [''shop.example''], tag_query = [],
      replace = [\<lparr>rfrom = ''http:'', rto = ''HTTP:''\<rparr>, \<lparr>rfrom = ''/x'', rto = ''/x/x''\<rparr>],
      modify = None\<rparr>"

text \<open>
  A configuration, with logging on, whose tag replaces the whole address by the empty
  string; the page after its scan; its engine; and the change record of the \<open>href\<close>
  attribute of the link.
\<close>

definition emptying_config :: config_input where
  "emptying_config =
     \<lparr>in_tags = Some [tag_of ''shop.example'' []
                        [\<lparr>rfrom = ''http://shop.example/x'', rto = []\<rparr>]],
      in_log = True\<rparr>"

definition emptied_page :: page where
  "emptied_page = construct_and_traverse emptying_config (link_page ''http://shop.example/x'')"

definition emptying_engine :: engine where
  "emptying_engine = fst (constructor emptying_config (link_page ''http://shop.example/x''))"

definition href_changed :: mutation where
  "href_changed =
     \<lparr>mtype = Attributes, attributeName = Some ''href'', target = Element 1 ''A'' []\<rparr>"

section \<open>Strings: the first occurrence\<close>






section \<open>Replacement rules in sequence\<close>

text \<open>
  C8. The \<open>replace\<close> entries are applied one after the other to the running string, in
  the declared order: the last entry works on what the entries before it produced. With
  the entries \<open>http:\<close> to \<open>https:\<close> and \<open>https://old\<close> to \<open>https://new\<close>, the address
  \<open>http://old/path\<close> becomes \<open>https://new/path\<close>, although the second pattern does not
  occur in the address itself; and a scan of a page with that link writes this value.
\<close>

theorem replace_entries_sequential:
  "apply_replace (rs @ [r]) s = js_replace (apply_replace rs s) (rfrom r) (rto r) \<and>
   apply_replace [\<lparr>rfrom = ''http:'', rto = ''https:''\<rparr>,
                  \<lparr>rfrom = ''https://old'', rto = ''https://new''\<rparr>] ''http://old/path''
     = ''https://new/path'' \<and>
   js_replace ''http://old/path'' ''https://old'' ''https://new'' = ''http://old/path'' \<and>
   href_attr (construct_and_traverse replace_order_config (link_page ''http://old/path'')) 1
     = Some ''https://new/path''"
proof -
  have "apply_replace (rs @ [r]) s = js_replace (apply_replace rs s) (rfrom r) (rto r)"
    by (induction rs arbitrary: s) auto
  moreover have
    "apply_replace [\<lparr>rfrom = ''http:'', rto = ''https:''\<rparr>,
                    \<lparr>rfrom = ''https://old'', rto = ''https://new''\<rparr>] ''http://old/path''
       = ''https://new/path''"
    by (simp add: js_replace_def)
  moreover have
    "js_replace ''http://old/path'' ''https://old'' ''https://new'' = ''http://old/path''"
    by (simp add: js_replace_def)
  moreover have
    "href_attr (construct_and_traverse replace_order_config (link_page ''http://old/path'')) 1
       = Some ''https://new/path''"
    by code_simp
  ultimately show ?thesis by simp
qed

section \<open>Merging the tag's query\<close>

lemma map_of_update_fold:
  "map_of (foldl (\<lambda>acc (k, v). AList.update k v acc) acc xs) = map_of acc ++ map_of (rev xs)"
proof (induction xs arbitrary: acc)
  case Nil
  then show ?case by simp
next
  case (Cons x xs)
  obtain k v where x: "x = (k, v)" by (cases x)
  show ?case
    by (simp add: x Cons.IH update_conv' map_add_def fun_eq_iff split: option.splits)
qed

lemma map_of_rev_distinct: "distinct (map fst xs) \<Longrightarrow> map_of (rev xs) = map_of xs"
proof (induction xs)
  case Nil
  then show ?case by simp
next
  case (Cons x xs)
  obtain k v where x: "x = (k, v)" by (cases x)
  have "map_of xs k = None"
    using Cons.prems by (simp add: x map_of_eq_None_iff)
  then show ?case
    using Cons by (auto simp: x fun_eq_iff map_add_def split: option.splits)
qed

lemma map_of_spread:
  "distinct (map fst a) \<Longrightarrow> distinct (map fst b) \<Longrightarrow>
   map_of (spread a b) = map_of a ++ map_of b"
  by (simp add: spread_def map_of_update_fold map_of_rev_distinct)

lemma modifyURL_merges_query:
  "\<not> already_modified (docile p n) u \<Longrightarrow>
   fst (modifyURL L e u n t p) = set_query L u (spread (query u) (tag_query t))"
  by (simp add: modifyURL_def Let_def split: option.splits modify_outcome.splits)

text \<open>
  C6. When the pipeline runs on a link, the query it sets on the parsed URL is the
  link's query overlaid with the tag's: a key of the tag has the tag's value, any other
  key keeps the link's value (query objects have each key once). For a link with query
  \<open>a=1\<close> and a tag with query \<open>{a: 2, b: 3}\<close> the merged query is \<open>a=2, b=3\<close> and the
  link is rewritten to \<open>...?a=2&b=3\<close>.
\<close>

theorem query_merge_tag_wins:
  "(\<not> already_modified (docile p n) u \<and> distinct (map fst (query u)) \<and>
    distinct (map fst (tag_query t)) \<longrightarrow>
      fst (modifyURL L e u n t p) = set_query L u (spread (query u) (tag_query t)) \<and>
      (\<forall>k. map_of (spread (query u) (tag_query t)) k =
             (case map_of (tag_query t) k of
                Some v \<Rightarrow> Some v
              | None \<Rightarrow> map_of (query u) k))) \<and>
   spread [(''a'', ''1'')] [(''a'', ''2''), (''b'', ''3'')] = [(''a'', ''2''), (''b'', ''3'')] \<and>
   href_attr (construct_and_traverse query_merge_config (link_page ''http://shop.example/x?a=1'')) 1
     = Some ''http://shop.example/x?a=2&b=3''"
proof -
  have "spread [(''a'', ''1'')] [(''a'', ''2''), (''b'', ''3'')] = [(''a'', ''2''), (''b'', ''3'')]"
    by (simp add: spread_def)
  moreover have
    "href_attr (construct_and_traverse query_merge_config (link_page ''http://shop.example/x?a=1'')) 1
       = Some ''http://shop.example/x?a=2&b=3''"
    by code_simp
  ultimately show ?thesis
    by (simp add: modifyURL_merges_query map_of_spread map_add_def split: option.splits)
qed

theorem query_merge_tag_wins_witness:
  "query (fst (modifyURL url_parse_lib
                 \<lparr>attached = False, config = [], state_hosts = [], log_enabled = False\<rparr>
                 (url_parse ''http://shop.example/x?a=1'') 1
                 \<lparr>hosts = [''shop.example''], tag_query = [(''a'', ''2''), (''b'', ''3'')],
                  replace = [], modify = None\<rparr>
                 (link_page ''http://shop.example/x?a=1'')))
     = [(''a'', ''2''), (''b'', ''3'')] \<and>
   map_of (spread (query (url_parse ''http://shop.example/x?a=1''))
             [(''a'', ''2''), (''b'', ''3'')]) ''a'' = Some ''2''"
proof -
  let ?u = "url_parse ''http://shop.example/x?a=1''"
  let ?t = "\<lparr>hosts = [''shop.example''], tag_query = [(''a'', ''2''), (''b'', ''3'')],
             replace = [], modify = None\<rparr>"
  let ?p = "link_page ''http://shop.example/x?a=1''"
  let ?e = "\<lparr>attached = False, config = [], state_hosts = [], log_enabled = False\<rparr>"
  have h: "\<not> already_modified (docile ?p 1) ?u \<and> distinct (map fst (query ?u)) \<and>
           distinct (map fst (tag_query ?t))"
    by code_simp
  have v: "query (set_query url_parse_lib ?u (spread (query ?u) (tag_query ?t)))
             = [(''a'', ''2''), (''b'', ''3'')]"
    by code_simp
  have m: "map_of (tag_query ?t) ''a'' = Some ''2''"
    by simp
  from query_merge_tag_wins [of ?p 1 ?u ?t url_parse_lib ?e] h
  have "fst (modifyURL url_parse_lib ?e ?u 1 ?t ?p)
          = set_query url_parse_lib ?u (spread (query ?u) (tag_query ?t))"
    and "map_of (spread (query ?u) (tag_query ?t)) ''a'' =
           (case map_of (tag_query ?t) ''a'' of Some v \<Rightarrow> Some v | None \<Rightarrow> map_of (query ?u) ''a'')"
    by blast+
  with v m show ?thesis by simp
qed

section \<open>What an operation leaves alone\<close>

lemma this_log_links [simp]:
  "href_attr (this_log e b s p) = href_attr p"
  "docile (this_log e b s p) = docile p"
  "body (this_log e b s p) = body p"
  by (simp_all add: this_log_def Log_def)

lemma Log_links [simp]:
  "href_attr (Log b s p) = href_attr p"
  "docile (Log b s p) = docile p"
  "body (Log b s p) = body p"
  by (simp_all add: Log_def)

lemma modifyURL_frame:
  "m \<noteq> n \<Longrightarrow>
   href_attr (snd (modifyURL L e u m t p)) n = href_attr p n \<and>
   docile (snd (modifyURL L e u m t p)) n = docile p n"
  by (simp add: modifyURL_def Let_def split: option.splits modify_outcome.splits)

lemma apply_tags_frame:
  "m \<noteq> n \<Longrightarrow>
   href_attr (snd (apply_tags L e m ts up)) n = href_attr (snd up) n \<and>
   docile (snd (apply_tags L e m ts up)) n = docile (snd up) n"
proof (induction ts arbitrary: up)
  case Nil
  then show ?case by simp
next
  case (Cons t ts)
  obtain u p where up: "up = (u, p)" by (cases up)
  show ?case
    using Cons.IH [OF Cons.prems, of "modifyURL L e u m t p"]
          Cons.IH [OF Cons.prems, of "(u, p)"]
          modifyURL_frame [OF Cons.prems, of L e u t p]
    by (simp add: up)
qed

lemma visit_frame:
  assumes "href_attr p n = Some h" and "host (parseURL L h) \<notin> set (state_hosts e)"
  shows "href_attr (visit L e p nd) n = href_attr p n \<and> docile (visit L e p nd) n = docile p n"
proof (cases "ident nd = n")
  case True
  then show ?thesis using assms by (simp add: visit_def)
next
  case False
  then show ?thesis
    using apply_tags_frame [OF False, of L e "config e"]
    by (simp add: visit_def Let_def split: option.splits)
qed

lemma foldl_visit_frame:
  assumes "href_attr p n = Some h" and "host (parseURL L h) \<notin> set (state_hosts e)"
  shows "href_attr (foldl (visit L e) p nodes) n = href_attr p n \<and>
         docile (foldl (visit L e) p nodes) n = docile p n"
  using assms(1)
proof (induction nodes arbitrary: p)
  case Nil
  then show ?case by simp
next
  case (Cons nd nodes)
  have v: "href_attr (visit L e p nd) n = href_attr p n \<and> docile (visit L e p nd) n = docile p n"
    using visit_frame [OF Cons.prems assms(2)] .
  then have "href_attr (visit L e p nd) n = Some h" using Cons.prems by simp
  from Cons.IH [OF this] v show ?case by simp
qed

lemma traverse_frame:
  assumes "href_attr p n = Some h" and "host (parseURL L h) \<notin> set (state_hosts e)"
  shows "href_attr (traverse L e r p) n = href_attr p n \<and> docile (traverse L e r p) n = docile p n"
proof -
  have "href_attr (this_log e False ''Traversing DOM...'' p) n = Some h"
    using assms(1) by simp
  from foldl_visit_frame [OF this assms(2)] show ?thesis
    by (simp add: traverse_def Let_def split: node.splits option.splits)
qed

lemma constructor_hosts:
  "set (state_hosts (fst (constructor c p0))) =
   (\<Union>t\<in>set (config (fst (constructor c p0))). set (hosts t))"
  by (simp add: constructor_def Let_def)

text \<open>
  C5. The host list of a constructed engine is the union of the hosts of its tags. A link
  whose parsed host is in none of them keeps its \<open>href\<close> attribute and its provenance
  record through any \<open>traverse\<close>, whatever the tags contain and wherever the scan starts.
\<close>

theorem host_filtering:
  assumes "e = fst (constructor c p0)"
    and "href_attr p n = Some h"
    and "host (parseURL L h) \<notin> (\<Union>t\<in>set (config e). set (hosts t))"
  shows "set (state_hosts e) = (\<Union>t\<in>set (config e). set (hosts t)) \<and>
         href_attr (traverse L e r p) n = href_attr p n \<and>
         docile (traverse L e r p) n = docile p n"
proof -
  have hs: "set (state_hosts e) = (\<Union>t\<in>set (config e). set (hosts t))"
    using assms(1) constructor_hosts [of c p0] by simp
  then have "host (parseURL L h) \<notin> set (state_hosts e)"
    using assms(3) by simp
  from traverse_frame [OF assms(2) this] hs show ?thesis by simp
qed

theorem host_filtering_witness:
  "href_attr (traverse url_parse_lib
                (fst (constructor multi_tag_config (link_page ''http://other.example/x''))) None
                (link_page ''http://other.example/x'')) 1
     = Some ''http://other.example/x'' \<and>
   docile (traverse url_parse_lib
             (fst (constructor multi_tag_config (link_page ''http://other.example/x''))) None
             (link_page ''http://other.example/x'')) 1
     = None"
proof -
  let ?p = "link_page ''http://other.example/x''"
  let ?e = "fst (constructor multi_tag_config ?p)"
  have h1: "href_attr ?p 1 = Some ''http://other.example/x''"
    by code_simp
  have "host (parseURL url_parse_lib ''http://other.example/x'') = ''other.example''"
    by code_simp
  moreover have "(\<Union>t\<in>set (config ?e). set (hosts t)) = {''shop.example''}"
    by (simp add: multi_tag_config_def tag_of_def constructor_def extend_tag_def Let_def)
  ultimately have h2:
    "host (parseURL url_parse_lib ''http://other.example/x'')
       \<notin> (\<Union>t\<in>set (config ?e). set (hosts t))"
    by simp
  have d: "docile ?p 1 = None"
    by code_simp
  from host_filtering [OF refl h1 h2, of None] h1 d show ?thesis by simp
qed

section \<open>A custom transform that throws\<close>

lemma same_links_refl [simp]: "same_links p p"
  by (simp add: same_links_def)

lemma same_links_this_log [simp]:
  "same_links (this_log e b s p) q = same_links p q"
  "same_links p (this_log e b s q) = same_links p q"
  by (simp_all add: same_links_def)

lemma modifyURL_throwing:
  assumes "modify t = Some f" and "always_throws f" and "\<not> already_modified (docile p n) u"
  shows "href_attr (snd (modifyURL L e u n t p)) n =
           Some (apply_replace (replace t) (href (set_query L u (spread (query u) (tag_query t))))) \<and>
         docile (snd (modifyURL L e u n t p)) n =
           Some \<lparr>was = href u,
                 is_now = apply_replace (replace t)
                            (href (set_query L u (spread (query u) (tag_query t))))\<rparr>"
proof -
  obtain x where "f (set_query L u (spread (query u) (tag_query t))) = Throws x"
    using assms(2) by (auto simp: always_throws_def)
  then show ?thesis
    using assms(1,3) by (simp add: modifyURL_def Let_def)
qed

lemma modifyURL_sim:
  assumes "same_links p q" and "contained t t'"
  shows "fst (modifyURL L e u n t p) = fst (modifyURL L e' u n t' q) \<and>
         same_links (snd (modifyURL L e u n t p)) (snd (modifyURL L e' u n t' q))"
proof (cases "t' = t")
  case True
  then show ?thesis
    using assms(1)
    by (simp add: modifyURL_def Let_def same_links_def split: option.splits modify_outcome.splits)
next
  case False
  then obtain f where f: "modify t = Some f" "always_throws f" "t' = without_modify t"
    using assms(2) by (auto simp: contained_def)
  obtain x where "f (set_query L u (spread (query u) (tag_query t))) = Throws x"
    using f(2) by (auto simp: always_throws_def)
  then show ?thesis
    using assms(1) f(1,3)
    by (simp add: modifyURL_def Let_def same_links_def without_modify_def)
qed

lemma contained_hosts: "contained t t' \<Longrightarrow> hosts t' = hosts t"
  by (auto simp: contained_def without_modify_def)

lemma apply_tags_sim:
  assumes "list_all2 contained ts ts'" and "same_links p q"
  shows "fst (apply_tags L e n ts (u, p)) = fst (apply_tags L e' n ts' (u, q)) \<and>
         same_links (snd (apply_tags L e n ts (u, p))) (snd (apply_tags L e' n ts' (u, q)))"
  using assms
proof (induction ts ts' arbitrary: u p q rule: list_all2_induct)
  case Nil
  then show ?case by simp
next
  case (Cons t ts t' ts')
  show ?case
  proof (cases "host u \<in> set (hosts t)")
    case True
    obtain u1 p1 where a: "modifyURL L e u n t p = (u1, p1)"
      by (cases "modifyURL L e u n t p")
    obtain u2 q1 where b: "modifyURL L e' u n t' q = (u2, q1)"
      by (cases "modifyURL L e' u n t' q")
    have "u1 = u2 \<and> same_links p1 q1"
      using modifyURL_sim [OF Cons.prems Cons.hyps(1), of L e u n e'] a b by simp
    then show ?thesis
      using Cons.IH [of p1 q1 u1] True contained_hosts [OF Cons.hyps(1)] a b by simp
  next
    case False
    then show ?thesis
      using Cons.IH [OF Cons.prems, of u] contained_hosts [OF Cons.hyps(1)] by simp
  qed
qed

lemma visit_sim:
  assumes "list_all2 contained (config e) (config e')" and "state_hosts e' = state_hosts e"
    and "same_links p q"
  shows "same_links (visit L e p nd) (visit L e' q nd)"
proof -
  have eq: "href_attr q = href_attr p" using assms(3) by (simp add: same_links_def)
  show ?thesis
    using apply_tags_sim [OF assms(1) assms(3), of L e "ident nd" _ e'] assms(2,3)
    by (simp add: visit_def Let_def eq split: option.splits)
qed

lemma foldl_visit_sim:
  assumes "list_all2 contained (config e) (config e')" and "state_hosts e' = state_hosts e"
  shows "same_links p q \<Longrightarrow> same_links (foldl (visit L e) p nodes) (foldl (visit L e') q nodes)"
proof (induction nodes arbitrary: p q)
  case Nil
  then show ?case by simp
next
  case (Cons nd nodes)
  from Cons.IH [OF visit_sim [OF assms Cons.prems]] show ?case by simp
qed

lemma traverse_sim:
  assumes "list_all2 contained (config e) (config e')" and "state_hosts e' = state_hosts e"
  shows "same_links (traverse L e r p) (traverse L e' r p)"
proof -
  have "\<And>p1 q1 nodes. same_links p1 q1 \<Longrightarrow>
          same_links (foldl (visit L e) p1 nodes) (foldl (visit L e') q1 nodes)"
    using foldl_visit_sim [OF assms] .
  then show ?thesis
    by (simp add: traverse_def Let_def split: node.splits option.splits)
qed

text \<open>
  C4. Let the \<open>modify\<close> of a tag throw on every URL. When the pipeline runs on a link
  (it did not return at its check), the link's \<open>href\<close> is written all the same, and the
  value written is the URL with the tag's query merged, as it stood before the \<open>modify\<close>
  step, with the tag's \<open>replace\<close> entries applied; the provenance record holds the same
  value. In every case the links are left as by the same tag without its \<open>modify\<close>.
  \<open>traverse\<close> returns normally, with the links as left by the configuration in which
  the throwing transforms are removed: the failure reaches no caller.
\<close>

theorem modify_failure_contained:
  "(modify t = Some f \<and> always_throws f \<and> \<not> already_modified (docile p n) u \<longrightarrow>
      href_attr (snd (modifyURL L e u n t p)) n =
        Some (apply_replace (replace t) (href (set_query L u (spread (query u) (tag_query t))))) \<and>
      docile (snd (modifyURL L e u n t p)) n =
        Some \<lparr>was = href u,
              is_now = apply_replace (replace t)
                         (href (set_query L u (spread (query u) (tag_query t))))\<rparr>) \<and>
   (modify t = Some f \<and> always_throws f \<longrightarrow>
      same_links (snd (modifyURL L e u n t p)) (snd (modifyURL L e u n (without_modify t) p))) \<and>
   (list_all2 contained (config e) ts \<longrightarrow>
      same_links (traverse L e r p) (traverse L (e\<lparr>config := ts\<rparr>) r p))"
proof -
  have "contained t (without_modify t)" if "modify t = Some f" "always_throws f"
    using that by (auto simp: contained_def)
  then show ?thesis
    using modifyURL_throwing [of t f p n u L e]
      modifyURL_sim [of p p t "without_modify t" L e u n e]
      traverse_sim [of e "e\<lparr>config := ts\<rparr>" L r p]
    by auto
qed

theorem modify_failure_contained_witness:
  "href_attr (snd (modifyURL url_parse_lib (quiet_engine [extend_tag throwing_tag])
                     (url_parse ''http://shop.example/x'') 1 (extend_tag throwing_tag)
                     (link_page ''http://shop.example/x''))) 1
     = Some ''http://shop.example/x?ref=B'' \<and>
   href_attr (traverse url_parse_lib (quiet_engine [extend_tag throwing_tag]) None
                (link_page ''http://shop.example/x'')) 1
     = Some ''http://shop.example/x?ref=B''"
proof -
  let ?t = "extend_tag throwing_tag"
  let ?e = "quiet_engine [?t]"
  let ?u = "url_parse ''http://shop.example/x''"
  let ?p = "link_page ''http://shop.example/x''"
  let ?f = "\<lambda>u::url. Throws ''boom''"
  have m: "modify ?t = Some ?f"
    by (simp add: extend_tag_def throwing_tag_def)
  have a: "always_throws ?f"
    by (simp add: always_throws_def)
  have c: "\<not> already_modified (docile ?p 1) ?u"
    by (simp add: link_page_def already_modified_def)
  have v: "apply_replace (replace ?t)
             (href (set_query url_parse_lib ?u (spread (query ?u) (tag_query ?t))))
           = ''http://shop.example/x?ref=B''"
    by code_simp
  have l: "list_all2 contained (config ?e) [without_modify ?t]"
    using m a by (auto simp: quiet_engine_def contained_def)
  have w: "href_attr (traverse url_parse_lib (?e\<lparr>config := [without_modify ?t]\<rparr>) None ?p) 1
             = Some ''http://shop.example/x?ref=B''"
    by code_simp
  from modify_failure_contained [of ?t ?f ?p 1 ?u url_parse_lib ?e "[without_modify ?t]" None]
    m a c l
  have "href_attr (snd (modifyURL url_parse_lib ?e ?u 1 ?t ?p)) 1 =
          Some (apply_replace (replace ?t)
                  (href (set_query url_parse_lib ?u (spread (query ?u) (tag_query ?t)))))"
    and "same_links (traverse url_parse_lib ?e None ?p)
           (traverse url_parse_lib (?e\<lparr>config := [without_modify ?t]\<rparr>) None ?p)"
    by blast+
  with v w show ?thesis by (simp add: same_links_def)
qed

section \<open>Applying the pipeline again\<close>

text \<open>
  C3. Applying the pipeline to a link twice, with nothing else touching the element in
  between, should leave the \<open>href\<close> of the first application. The code does not: its
  check compares the stored \<open>is\<close> with \<open>url.href\<close>, the serialisation of the parsed
  URL, and not with the element's \<open>href\<close> attribute as the callback's check does. A tag
  writes the scheme in capitals and doubles the path. Applied to
  \<open>http://shop.example/x\<close> it writes \<open>HTTP://shop.example/x/x\<close> and stores it as
  \<open>is\<close>. For the second application the written value is parsed, as \<open>traverse\<close> does;
  the parser lower-cases the scheme, the serialised URL differs from the stored \<open>is\<close>,
  the check does not return, and the \<open>href\<close> becomes \<open>HTTP://shop.example/x/x/x\<close>.
  A second \<open>traverse\<close> of the page does the same.
\<close>

theorem second_application_rewrites_again:
  "href_attr (snd (modifyURL url_parse_lib (quiet_engine [capitals_tag])
                     (url_parse ''http://shop.example/x'') 1 capitals_tag
                     (link_page ''http://shop.example/x''))) 1
     = Some ''HTTP://shop.example/x/x'' \<and>
   docile (snd (modifyURL url_parse_lib (quiet_engine [capitals_tag])
                  (url_parse ''http://shop.example/x'') 1 capitals_tag
                  (link_page ''http://shop.example/x''))) 1
     = Some \<lparr>was = ''http://shop.example/x'', is_now = ''HTTP://shop.example/x/x''\<rparr> \<and>
   href (url_parse ''HTTP://shop.example/x/x'') = ''http://shop.example/x/x'' \<and>
   href_attr (snd (modifyURL url_parse_lib (quiet_engine [capitals_tag])
                     (url_parse ''HTTP://shop.example/x/x'') 1 capitals_tag
                     (snd (modifyURL url_parse_lib (quiet_engine [capitals_tag])
                             (url_parse ''http://shop.example/x'') 1 capitals_tag
                             (link_page ''http://shop.example/x''))))) 1
     = Some ''HTTP://shop.example/x/x/x'' \<and>
   href_attr (traverse url_parse_lib (quiet_engine [capitals_tag]) None
                (link_page ''http://shop.example/x'')) 1
     = Some ''HTTP://shop.example/x/x'' \<and>
   href_attr (traverse url_parse_lib (quiet_engine [capitals_tag]) None
                (traverse url_parse_lib (quiet_engine [capitals_tag]) None
                   (link_page ''http://shop.example/x''))) 1
     = Some ''HTTP://shop.example/x/x/x''"
  by code_simp

section \<open>The engine's own write-back in the callback\<close>

text \<open>
  C7, as the code has it. A change record for the \<open>href\<close> attribute of an element whose
  current \<open>href\<close> equals the stored \<open>is\<close> value, that value not being empty, is passed
  over: nothing is logged for it, \<open>traverse\<close> is not called for it, and the callback goes
  on with the rest of the batch in the same state.
\<close>

theorem own_write_back_ignored:
  "mtype m = Attributes \<and> attributeName m = Some ''href'' \<and>
   docile p (ident (target m)) = Some r \<and> is_now r \<noteq> [] \<and>
   href_attr p (ident (target m)) = Some (is_now r) \<longrightarrow>
     skipped p m \<and>
     observer_callback L e (m # ms) emitted p = observer_callback L e ms emitted p \<and>
     observer_callback L e [m] emitted p = p"
  by (simp add: skipped_def)

theorem own_write_back_ignored_witness:
  "observer_callback url_parse_lib
     (fst (constructor query_merge_config (link_page ''http://shop.example/x?a=1'')))
     [href_changed] False
     (construct_and_traverse query_merge_config (link_page ''http://shop.example/x?a=1''))
   = construct_and_traverse query_merge_config (link_page ''http://shop.example/x?a=1'')"
proof -
  let ?p = "construct_and_traverse query_merge_config (link_page ''http://shop.example/x?a=1'')"
  let ?r = "\<lparr>was = ''http://shop.example/x?a=1'', is_now = ''http://shop.example/x?a=2&b=3''\<rparr>"
  have "mtype href_changed = Attributes \<and> attributeName href_changed = Some ''href'' \<and>
        ident (target href_changed) = 1"
    by (simp add: href_changed_def)
  moreover have "docile ?p 1 = Some ?r"
    by code_simp
  moreover have "href_attr ?p 1 = Some (is_now ?r)"
    by code_simp
  ultimately show ?thesis
    using own_write_back_ignored
      [of href_changed ?p ?r url_parse_lib
          "fst (constructor query_merge_config (link_page ''http://shop.example/x?a=1''))"
          "[]" False]
    by simp
qed

text \<open>
  C7 as stated fails when the stored \<open>is\<close> value is the empty string. A tag replaces the
  whole address by the empty string; the scan writes the empty \<open>href\<close> and stores it as
  \<open>is\<close>. The change record for that write has a new value equal to the stored \<open>is\<close>,
  yet the callback does not pass it over: it logs the mutation and calls \<open>traverse\<close> on
  the link.
\<close>

theorem own_write_back_ignored_counterexample:
  "docile emptied_page 1 = Some \<lparr>was = ''http://shop.example/x'', is_now = []\<rparr> \<and>
   href_attr emptied_page 1 = Some [] \<and>
   skipped emptied_page href_changed = False \<and>
   console (observer_callback url_parse_lib emptying_engine [href_changed] False emptied_page)
     = console emptied_page @ [(False, ''DOM Mutation''), (False, ''Traversing DOM...'')]"
  by code_simp

section \<open>Where the code departs from its own description\<close>

text \<open>
  C1. The two tags of \<open>multi_tag_config\<close> both match the link
  \<open>http://shop.example/x\<close>. The first tag writes \<open>...?ref=A\<close> and stores it as \<open>is\<close>.
  The URL object handed to the second tag is the one the first tag has set the query on,
  so its \<open>href\<close> equals the stored \<open>is\<close>, and the pipeline returns at its check: the
  second tag's replacement is never applied and the final \<open>href\<close> keeps \<open>ref=A\<close>,
  whether the scan starts at the body or at the link itself.
\<close>

theorem second_matching_tag_not_applied:
  "href_attr (construct_and_traverse multi_tag_config (link_page ''http://shop.example/x'')) 1
     = Some ''http://shop.example/x?ref=A'' \<and>
   docile (construct_and_traverse multi_tag_config (link_page ''http://shop.example/x'')) 1
     = Some \<lparr>was = ''http://shop.example/x'', is_now = ''http://shop.example/x?ref=A''\<rparr> \<and>
   href_attr (traverse url_parse_lib
                (fst (constructor multi_tag_config (link_page ''http://shop.example/x'')))
                (Some (Element 1 ''A'' [])) (link_page ''http://shop.example/x'')) 1
     = Some ''http://shop.example/x?ref=A''"
  by code_simp

text \<open>
  C2. Both tags of \<open>two_rewrites_config\<close> rewrite the link \<open>http://shop.example/x\<close>.
  After the second rewrite the provenance record's \<open>was\<close> is \<open>...?ref=A\<close>, the
  \<open>href\<close> of the URL object on entry to the second call, and no longer the link's
  original \<open>href\<close>.
\<close>

theorem was_overwritten_by_second_rewrite:
  "docile (construct_and_traverse two_rewrites_config (link_page ''http://shop.example/x'')) 1
     = Some \<lparr>was = ''http://shop.example/x?ref=A'',
             is_now = ''http://shop.example/x?ref=A&t=1''\<rparr>"
  by code_simp

lemma modifyURL_silent:
  assumes "\<not> log_enabled e"
    and "case modify t of None \<Rightarrow> True | Some f \<Rightarrow> never_throws f"
  shows "console (snd (modifyURL L e u n t p)) = console p"
proof (cases "modify t")
  case None
  then show ?thesis
    using assms(1) by (simp add: modifyURL_def Let_def this_log_def)
next
  case (Some f)
  then obtain a where "f (set_query L u (spread (query u) (tag_query t))) = Yields a"
    using assms(2) by (auto simp: never_throws_def)
  then show ?thesis
    using assms(1) Some by (simp add: modifyURL_def Let_def this_log_def)
qed

lemma apply_tags_silent:
  assumes "\<not> log_enabled e"
  shows "\<forall>t\<in>set ts. (case modify t of None \<Rightarrow> True | Some f \<Rightarrow> never_throws f) \<Longrightarrow>
         console (snd (apply_tags L e n ts (u, p))) = console p"
proof (induction ts arbitrary: u p)
  case Nil
  then show ?case by simp
next
  case (Cons t ts)
  obtain u1 p1 where m: "modifyURL L e u n t p = (u1, p1)"
    by (cases "modifyURL L e u n t p")
  have "console p1 = console p"
    using modifyURL_silent [OF assms, of t L u n p] Cons.prems m by simp
  then show ?case
    using Cons.IH [of u1 p1] Cons.IH [of u p] Cons.prems m by simp
qed

lemma visit_silent:
  assumes "\<not> log_enabled e"
    and "\<forall>t\<in>set (config e). (case modify t of None \<Rightarrow> True | Some f \<Rightarrow> never_throws f)"
  shows "console (visit L e p nd) = console p"
  using apply_tags_silent [OF assms(1) assms(2)]
  by (simp add: visit_def Let_def split: option.splits)

lemma foldl_visit_silent:
  assumes "\<not> log_enabled e"
    and "\<forall>t\<in>set (config e). (case modify t of None \<Rightarrow> True | Some f \<Rightarrow> never_throws f)"
  shows "console (foldl (visit L e) p nodes) = console p"
  by (induction nodes arbitrary: p) (simp_all add: visit_silent [OF assms])

lemma traverse_silent:
  assumes "\<not> log_enabled e"
    and "\<forall>t\<in>set (config e). (case modify t of None \<Rightarrow> True | Some f \<Rightarrow> never_throws f)"
  shows "console (traverse L e r p) = console p"
  using assms(1)
  by (simp add: traverse_def Let_def foldl_visit_silent [OF assms] this_log_def
           split: node.splits option.splits)

text \<open>
  With logging off, nothing is written by the constructor, by \<open>traverse\<close> or by the
  callback as long as no \<open>modify\<close> throws.
\<close>

lemma logging_off_silent_without_failure:
  assumes "\<not> log_enabled e"
    and "\<forall>t\<in>set (config e). (case modify t of None \<Rightarrow> True | Some f \<Rightarrow> never_throws f)"
  shows "console (traverse L e r p) = console p"
    and "console (observer_callback L e ms emitted p) = console p"
    and "\<not> in_log c \<Longrightarrow> console (snd (constructor c p)) = console p"
proof -
  show "console (traverse L e r p) = console p"
    using traverse_silent [OF assms] .
  show "console (observer_callback L e ms emitted p) = console p"
  proof (induction ms arbitrary: emitted p)
    case Nil
    then show ?case by simp
  next
    case (Cons m ms)
    have "console (traverse L e (Some (target m))
                     (if emitted then p else this_log e False ''DOM Mutation'' p)) = console p"
      using assms(1) by (simp add: traverse_silent [OF assms] this_log_def)
    then show ?case using Cons.IH by simp
  qed
  show "\<not> in_log c \<Longrightarrow> console (snd (constructor c p)) = console p"
    by (simp add: constructor_def Let_def this_log_def)
qed

text \<open>
  C9. The engine of \<open>silent_throwing_config\<close> is built without \<open>log\<close>. Its tag's
  \<open>modify\<close> throws, and the failure is written to the console by \<open>Log\<close> itself, not
  by the engine's switchable \<open>this.log\<close>.
\<close>

theorem modify_failure_logged_when_logging_off:
  "log_enabled (fst (constructor silent_throwing_config (link_page ''http://shop.example/x'')))
     = False \<and>
   console (construct_and_traverse silent_throwing_config (link_page ''http://shop.example/x''))
     = [(True, ''boom'')]"
  by code_simp

end
